theory Spec2Isabelle
  imports Main
begin

section \<open>Shared arrays of Gecode: gecode/support/shared-array.hh\<close>

text \<open>
  The header defines \<^verbatim>\<open>SAO<T>\<close>, the reference-counted object that owns a raw
  buffer of \<^verbatim>\<open>n\<close> elements, and \<^verbatim>\<open>SharedArray<T>\<close>, the handle through which
  callers reach it. Several handles may point to one object, so the embedding keeps an
  explicit store: objects and buffers live at addresses, handles hold an address, and
  every member function takes the store and returns the updated one.

  \<^item> A pointer is an address; \<^verbatim>\<open>NULL\<close> is address 0.
  \<^item> \<^verbatim>\<open>T&\<close> is a location: a buffer address and an index.
  \<^item> A slot of a buffer is \<open>None\<close> while it holds raw memory and \<open>Some v\<close> once a
    value has been written to it.
  \<^item> \<^verbatim>\<open>assert\<close> is modelled as compiled in: a failed assertion ends the call with
    \<open>AssertionFailed\<close>. A dereference that C++ leaves undefined ends it with
    \<open>InvalidPointer\<close>.
  \<^item> \<^verbatim>\<open>int\<close> is modelled by \<open>int\<close>: the only arithmetic on it is the decrement of
    the loop counters, which runs from \<^verbatim>\<open>n\<close> down to 0.
  \<^item> \<^verbatim>\<open>size_t\<close> wraps: the product \<^verbatim>\<open>sizeof(T)*n\<close> of the constructor is taken modulo
    \<open>2 ^ size_bits\<close>. The size of \<^verbatim>\<open>T\<close> and the width of \<^verbatim>\<open>size_t\<close> are constants of the
    compilation; the state carries them and no operation changes them.
  \<^item> The calls of the host allocator and the element constructor and destructor
    calls are recorded in a trace, in the order in which they happen.
\<close>

subsection \<open>Store\<close>

type_synonym addr = nat

datatype error = AssertionFailed | InvalidPointer | MemoryExhausted

datatype ref = Ref addr int

datatype event = Malloc addr nat | Free addr | Construct addr int | Destruct addr int

text \<open>
  The fields \<^verbatim>\<open>a\<close> and \<^verbatim>\<open>n\<close> of \<^verbatim>\<open>SAO<T>\<close>, and \<open>use_cnt\<close> for the base class
  \<^verbatim>\<open>SharedObject\<close> (declared in gecode/kernel.hh).
\<close>

record SAO =
  use_cnt :: nat
  sao_a :: addr
  sao_n :: int

record 'a state =
  objs :: "addr \<rightharpoonup> SAO"
  mem :: "addr \<rightharpoonup> 'a option list"
  next_addr :: addr
  avail :: nat
  trace :: "event list"
  sizeof_T :: nat
  size_bits :: nat

text \<open>\<^verbatim>\<open>SharedHandle\<close> holds one pointer to a \<^verbatim>\<open>SharedObject\<close>.\<close>

record SharedArray =
  object :: addr

text \<open>
  The state before anything is allocated, for elements of \<open>sz\<close> bytes, a \<^verbatim>\<open>size_t\<close> of
  \<open>w\<close> bits and an allocator with \<open>k\<close> bytes to hand out.
\<close>

definition init_state :: "nat \<Rightarrow> nat \<Rightarrow> nat \<Rightarrow> 'a state" where
  "init_state sz w k =
     \<lparr>objs = Map.empty, mem = Map.empty, next_addr = 1, avail = k, trace = [],
      sizeof_T = sz, size_bits = w\<rparr>"

subsection \<open>Host allocator\<close>

text \<open>
  Modelled from the spec: \<^verbatim>\<open>Memory::malloc\<close> and \<^verbatim>\<open>Memory::free\<close> (the host memory
  allocator, not part of the header). The allocator "supplies raw, untyped allocation
  and matching deallocation by byte size", and a request it cannot satisfy is a fatal
  allocation error. The request is a number of bytes; \<open>avail\<close> is the number of bytes
  the allocator can still hand out. A buffer of \<open>b\<close> bytes has room for
  \<open>b div sizeof(T)\<close> slots of \<^verbatim>\<open>T\<close>, and the buffer returned is raw: every slot is \<open>None\<close>.
  A request of 0 bytes is granted with a buffer without slots.
\<close>

definition Memory_malloc :: "nat \<Rightarrow> 'a state \<Rightarrow> error + (addr \<times> 'a state)" where
  "Memory_malloc b s =
     (if avail s < b then Inl MemoryExhausted
      else Inr (next_addr s,
                s\<lparr>mem := (mem s)(next_addr s \<mapsto> replicate (b div sizeof_T s) None),
                  next_addr := Suc (next_addr s),
                  avail := avail s - b,
                  trace := trace s @ [Malloc (next_addr s) b]\<rparr>))"

definition Memory_free :: "addr \<Rightarrow> 'a state \<Rightarrow> error + 'a state" where
  "Memory_free p s =
     (case mem s p of
        None \<Rightarrow> Inl InvalidPointer
      | Some cells \<Rightarrow>
          Inr (s\<lparr>mem := (mem s)(p := None),
                 avail := avail s + length cells * sizeof_T s,
                 trace := trace s @ [Free p]\<rparr>))"

subsection \<open>Locations\<close>

text \<open>Reading the slot a \<^verbatim>\<open>T&\<close> designates, and writing to it.\<close>

definition load :: "ref \<Rightarrow> 'a state \<Rightarrow> error + 'a option" where
  "load r s =
     (case r of Ref p i \<Rightarrow>
        (case mem s p of
           None \<Rightarrow> Inl InvalidPointer
         | Some cells \<Rightarrow>
             if 0 \<le> i \<and> i < int (length cells) then Inr (cells ! nat i)
             else Inl InvalidPointer))"

definition put :: "ref \<Rightarrow> 'a option \<Rightarrow> 'a state \<Rightarrow> error + 'a state" where
  "put r c s =
     (case r of Ref p i \<Rightarrow>
        (case mem s p of
           None \<Rightarrow> Inl InvalidPointer
         | Some cells \<Rightarrow>
             if 0 \<le> i \<and> i < int (length cells)
             then Inr (s\<lparr>mem := (mem s)(p \<mapsto> cells[nat i := c])\<rparr>)
             else Inl InvalidPointer))"

text \<open>The assignment \<^verbatim>\<open>r = v\<close> through a \<^verbatim>\<open>T&\<close>.\<close>

definition store :: "ref \<Rightarrow> 'a \<Rightarrow> 'a state \<Rightarrow> error + 'a state" where
  "store r v s = put r (Some v) s"

text \<open>
  \<^verbatim>\<open>new (&dst) T(src)\<close>: the copy constructor of \<^verbatim>\<open>T\<close> run on the slot \<open>dst\<close> with
  the slot \<open>src\<close> as its argument. The content of \<open>src\<close> is copied as it is.
\<close>

definition placement_copy :: "ref \<Rightarrow> ref \<Rightarrow> 'a state \<Rightarrow> error + 'a state" where
  "placement_copy dst src s =
     (case load src s of
        Inl e \<Rightarrow> Inl e
      | Inr c \<Rightarrow>
          (case put dst c s of
             Inl e \<Rightarrow> Inl e
           | Inr s' \<Rightarrow>
               (case dst of Ref d j \<Rightarrow> Inr (s'\<lparr>trace := trace s' @ [Construct d j]\<rparr>))))"

text \<open>\<^verbatim>\<open>r.~T()\<close>: the destructor of \<^verbatim>\<open>T\<close> run on a slot, which is raw memory afterwards.\<close>

definition destroy :: "ref \<Rightarrow> 'a state \<Rightarrow> error + 'a state" where
  "destroy r s =
     (case put r None s of
        Inl e \<Rightarrow> Inl e
      | Inr s' \<Rightarrow> (case r of Ref p i \<Rightarrow> Inr (s'\<lparr>trace := trace s' @ [Destruct p i]\<rparr>)))"

subsection \<open>SAO\<close>

text \<open>
  The argument \<^verbatim>\<open>sizeof(T)*n\<close> of \<^verbatim>\<open>Memory::malloc\<close>: \<^verbatim>\<open>n\<close> is converted to \<^verbatim>\<open>size_t\<close> and
  the product is computed in \<^verbatim>\<open>size_t\<close>, so it is taken modulo \<open>2 ^ size_bits\<close>.
\<close>

definition byte_count :: "'a state \<Rightarrow> int \<Rightarrow> nat" where
  "byte_count s n0 = (sizeof_T s * nat n0) mod 2 ^ size_bits s"

text \<open>
  \<^verbatim>\<open>SAO(int n0) : n(n0) { a = (n>0) ? static_cast<T*>(Memory::malloc(sizeof(T)*n)) : NULL; }\<close>
  The base class constructor starts the reference count at 0. The constructor stores
  \<^verbatim>\<open>n\<close> as given, whatever the size of the buffer it obtains.
\<close>

definition SAO_ctor :: "int \<Rightarrow> 'a state \<Rightarrow> error + (SAO \<times> 'a state)" where
  "SAO_ctor n0 s =
     (if 0 < n0 then
        (case Memory_malloc (byte_count s n0) s of
           Inl e \<Rightarrow> Inl e
         | Inr (p, s') \<Rightarrow> Inr (\<lparr>use_cnt = 0, sao_a = p, sao_n = n0\<rparr>, s'))
      else Inr (\<lparr>use_cnt = 0, sao_a = 0, sao_n = n0\<rparr>, s))"

text \<open>
  \<^verbatim>\<open>new SAO<T>(n)\<close>: the constructor, and the object placed at a fresh address. The
  memory of the object itself is not charged to \<open>avail\<close> and not traced: the trace records
  what the constructor and the destructor do with the buffer.
\<close>

definition new_SAO :: "int \<Rightarrow> 'a state \<Rightarrow> error + (addr \<times> 'a state)" where
  "new_SAO n0 s =
     (case SAO_ctor n0 s of
        Inl e \<Rightarrow> Inl e
      | Inr (ob, s') \<Rightarrow>
          Inr (next_addr s',
               s'\<lparr>objs := (objs s')(next_addr s' \<mapsto> ob), next_addr := Suc (next_addr s')\<rparr>))"

text \<open>
  The loop \<^verbatim>\<open>for (int i=n; i--;) new (&(o->a[i])) T(a[i]);\<close> of \<^verbatim>\<open>copy\<close>: the test
  \<^verbatim>\<open>i--\<close> leaves the loop when \<^verbatim>\<open>i\<close> is 0 and otherwise runs the body with \<^verbatim>\<open>i-1\<close>.
\<close>

function copy_loop :: "addr \<Rightarrow> addr \<Rightarrow> int \<Rightarrow> 'a state \<Rightarrow> error + 'a state" where
  "copy_loop src dst i s =
     (if i = 0 then Inr s
      else (case placement_copy (Ref dst (i - 1)) (Ref src (i - 1)) s of
              Inl e \<Rightarrow> Inl e
            | Inr s' \<Rightarrow> copy_loop src dst (i - 1) s'))"
  by pat_completeness auto
termination
proof (relation "measure (\<lambda>(src, dst, i, s). nat i)")
  show "wf (measure (\<lambda>(src, dst, i, s). nat i))" by simp
next
  fix src dst :: addr and i :: int and s s' :: "'a state"
  assume "i \<noteq> 0" and "placement_copy (Ref dst (i - 1)) (Ref src (i - 1)) s = Inr s'"
  then have "0 < i"
    by (auto simp: placement_copy_def put_def split: sum.splits option.splits if_splits)
  then show "((src, dst, i - 1, s'), (src, dst, i, s)) \<in> measure (\<lambda>(src, dst, i, s). nat i)"
    by simp
qed

declare copy_loop.simps [simp del]

text \<open>
  \<^verbatim>\<open>SharedObject* copy(void) const { SAO<T>* o = new SAO<T>(n); for ...; return o; }\<close>
\<close>

definition SAO_copy :: "addr \<Rightarrow> 'a state \<Rightarrow> error + (addr \<times> 'a state)" where
  "SAO_copy this s =
     (case objs s this of
        None \<Rightarrow> Inl InvalidPointer
      | Some ob \<Rightarrow>
          (case new_SAO (sao_n ob) s of
             Inl e \<Rightarrow> Inl e
           | Inr (o', s1) \<Rightarrow>
               (case objs s1 o' of
                  None \<Rightarrow> Inl InvalidPointer
                | Some ob' \<Rightarrow>
                    (case copy_loop (sao_a ob) (sao_a ob') (sao_n ob) s1 of
                       Inl e \<Rightarrow> Inl e
                     | Inr s2 \<Rightarrow> Inr (o', s2)))))"

text \<open>The loop \<^verbatim>\<open>for (int i=n; i--;) a[i].~T();\<close> of the destructor.\<close>

function dtor_loop :: "addr \<Rightarrow> int \<Rightarrow> 'a state \<Rightarrow> error + 'a state" where
  "dtor_loop p i s =
     (if i = 0 then Inr s
      else (case destroy (Ref p (i - 1)) s of
              Inl e \<Rightarrow> Inl e
            | Inr s' \<Rightarrow> dtor_loop p (i - 1) s'))"
  by pat_completeness auto
termination
proof (relation "measure (\<lambda>(p, i, s). nat i)")
  show "wf (measure (\<lambda>(p, i, s). nat i))" by simp
next
  fix p :: addr and i :: int and s s' :: "'a state"
  assume "i \<noteq> 0" and "destroy (Ref p (i - 1)) s = Inr s'"
  then have "0 < i"
    by (auto simp: destroy_def put_def split: sum.splits option.splits if_splits)
  then show "((p, i - 1, s'), (p, i, s)) \<in> measure (\<lambda>(p, i, s). nat i)"
    by simp
qed

declare dtor_loop.simps [simp del]

text \<open>
  \<^verbatim>\<open>~SAO(void) { if (n>0) { for (int i=n; i--;) a[i].~T(); Memory::free(a); } }\<close>
\<close>

definition SAO_dtor :: "addr \<Rightarrow> 'a state \<Rightarrow> error + 'a state" where
  "SAO_dtor this s =
     (case objs s this of
        None \<Rightarrow> Inl InvalidPointer
      | Some ob \<Rightarrow>
          if 0 < sao_n ob then
            (case dtor_loop (sao_a ob) (sao_n ob) s of
               Inl e \<Rightarrow> Inl e
             | Inr s' \<Rightarrow> Memory_free (sao_a ob) s')
          else Inr s)"

text \<open>
  \<^verbatim>\<open>T& operator[](int i) { assert((i>=0) && (i<n)); return a[i]; }\<close>
  The read-only form has the same body.
\<close>

definition SAO_index :: "addr \<Rightarrow> int \<Rightarrow> 'a state \<Rightarrow> error + ref" where
  "SAO_index this i s =
     (case objs s this of
        None \<Rightarrow> Inl InvalidPointer
      | Some ob \<Rightarrow>
          if 0 \<le> i \<and> i < sao_n ob then Inr (Ref (sao_a ob) i) else Inl AssertionFailed)"

text \<open>\<^verbatim>\<open>int size(void) const { return n; }\<close>\<close>

definition SAO_size :: "addr \<Rightarrow> 'a state \<Rightarrow> error + int" where
  "SAO_size this s =
     (case objs s this of None \<Rightarrow> Inl InvalidPointer | Some ob \<Rightarrow> Inr (sao_n ob))"

subsection \<open>SharedHandle\<close>

text \<open>
  Modelled from the spec: the reference counting of \<^verbatim>\<open>SharedHandle\<close>, the base class
  of \<^verbatim>\<open>SharedArray<T>\<close> (gecode/kernel.hh, not part of the header). A handle that
  starts referencing a store increments the store's count; a handle that references
  nothing counts nowhere.
\<close>

definition subscribe :: "addr \<Rightarrow> 'a state \<Rightarrow> error + 'a state" where
  "subscribe p s =
     (if p = 0 then Inr s
      else (case objs s p of
              None \<Rightarrow> Inl InvalidPointer
            | Some ob \<Rightarrow> Inr (s\<lparr>objs := (objs s)(p \<mapsto> ob\<lparr>use_cnt := Suc (use_cnt ob)\<rparr>)\<rparr>)))"

text \<open>
  Modelled from the spec: the constructor \<^verbatim>\<open>SharedHandle(SharedObject*)\<close>. The handle
  is "created bound to a fresh store" and is that store's first reference.
\<close>

definition SharedHandle_of_object :: "addr \<Rightarrow> 'a state \<Rightarrow> error + (SharedArray \<times> 'a state)" where
  "SharedHandle_of_object p s =
     (case subscribe p s of Inl e \<Rightarrow> Inl e | Inr s' \<Rightarrow> Inr (\<lparr>object = p\<rparr>, s'))"

text \<open>
  Modelled from the spec: the copy constructor \<^verbatim>\<open>SharedHandle(const SharedHandle&)\<close>.
  "If H is uninitialized, result is uninitialized. If H is initialized, result
  references the same Backing Store as H and the store's reference count is
  incremented by one."
\<close>

definition SharedHandle_copy :: "SharedArray \<Rightarrow> 'a state \<Rightarrow> error + (SharedArray \<times> 'a state)" where
  "SharedHandle_copy sh s =
     (case subscribe (object sh) s of
        Inl e \<Rightarrow> Inl e
      | Inr s' \<Rightarrow> Inr (\<lparr>object = object sh\<rparr>, s'))"

text \<open>
  Modelled from the spec: the setter \<^verbatim>\<open>object(SharedObject*)\<close> of \<^verbatim>\<open>SharedHandle\<close>,
  which "binds the handle" to the store given and counts the handle as a reference to
  it. The getter \<^verbatim>\<open>object()\<close> is the field \<open>object\<close>.
\<close>

definition set_object :: "SharedArray \<Rightarrow> addr \<Rightarrow> 'a state \<Rightarrow> error + (SharedArray \<times> 'a state)" where
  "set_object h p s =
     (case subscribe p s of Inl e \<Rightarrow> Inl e | Inr s' \<Rightarrow> Inr (h\<lparr>object := p\<rparr>, s'))"

subsection \<open>SharedArray\<close>

text \<open>\<^verbatim>\<open>SharedArray(void) {}\<close>\<close>

definition SharedArray_void :: SharedArray where
  "SharedArray_void = \<lparr>object = 0\<rparr>"

text \<open>\<^verbatim>\<open>SharedArray(int n) : SharedHandle(new SAO<T>(n)) {}\<close>\<close>

definition SharedArray_int :: "int \<Rightarrow> 'a state \<Rightarrow> error + (SharedArray \<times> 'a state)" where
  "SharedArray_int n0 s =
     (case new_SAO n0 s of Inl e \<Rightarrow> Inl e | Inr (p, s') \<Rightarrow> SharedHandle_of_object p s')"

text \<open>\<^verbatim>\<open>SharedArray(const SharedArray<T>& sa) : SharedHandle(sa) {}\<close>\<close>

definition SharedArray_copy :: "SharedArray \<Rightarrow> 'a state \<Rightarrow> error + (SharedArray \<times> 'a state)" where
  "SharedArray_copy sa s = SharedHandle_copy sa s"

text \<open>\<^verbatim>\<open>void init(int n) { assert(object() == NULL); object(new SAO<T>(n)); }\<close>\<close>

definition SharedArray_init ::
  "SharedArray \<Rightarrow> int \<Rightarrow> 'a state \<Rightarrow> error + (SharedArray \<times> 'a state)" where
  "SharedArray_init h n0 s =
     (if object h \<noteq> 0 then Inl AssertionFailed
      else (case new_SAO n0 s of Inl e \<Rightarrow> Inl e | Inr (p, s') \<Rightarrow> set_object h p s'))"

text \<open>
  \<^verbatim>\<open>T& operator[](int i) { assert(object() != NULL);
       return (*static_cast<SAO<T>*>(object()))[i]; }\<close>
  The read-only form has the same body.
\<close>

definition SharedArray_index :: "SharedArray \<Rightarrow> int \<Rightarrow> 'a state \<Rightarrow> error + ref" where
  "SharedArray_index h i s =
     (if object h = 0 then Inl AssertionFailed else SAO_index (object h) i s)"

text \<open>
  \<^verbatim>\<open>int size(void) const { assert(object() != NULL);
       return static_cast<SAO<T>*>(object())->size(); }\<close>
\<close>

definition SharedArray_size :: "SharedArray \<Rightarrow> 'a state \<Rightarrow> error + int" where
  "SharedArray_size h s =
     (if object h = 0 then Inl AssertionFailed else SAO_size (object h) s)"

text \<open>
  What a caller does with the reference returned: the statement \<^verbatim>\<open>h[i] = v;\<close> and
  the expression \<^verbatim>\<open>h[i]\<close> read as a value.
\<close>

definition assign_at :: "SharedArray \<Rightarrow> int \<Rightarrow> 'a \<Rightarrow> 'a state \<Rightarrow> error + 'a state" where
  "assign_at h i v s =
     (case SharedArray_index h i s of Inl e \<Rightarrow> Inl e | Inr r \<Rightarrow> store r v s)"

definition read_at :: "SharedArray \<Rightarrow> int \<Rightarrow> 'a state \<Rightarrow> error + 'a option" where
  "read_at h i s =
     (case SharedArray_index h i s of Inl e \<Rightarrow> Inl e | Inr r \<Rightarrow> load r s)"

subsection \<open>Well-formed stores\<close>

text \<open>
  Addresses are handed out in increasing order and never reused, so in a reachable
  state nothing lives at \<^verbatim>\<open>NULL\<close> or at an address not yet handed out, and no object
  points to a buffer that is yet to be allocated.
\<close>

definition wf_state :: "'a state \<Rightarrow> bool" where
  "wf_state s \<longleftrightarrow>
     0 < next_addr s \<and> objs s 0 = None \<and> mem s 0 = None \<and>
     (\<forall>p. next_addr s \<le> p \<longrightarrow> objs s p = None \<and> mem s p = None) \<and>
     (\<forall>p ob. objs s p = Some ob \<longrightarrow> sao_a ob < next_addr s)"

text \<open>
  An element has a positive size, and every buffer lies within the address space: the
  bytes its slots occupy are counted by a \<^verbatim>\<open>size_t\<close>. The allocator hands out no other
  buffers, since its argument is a \<^verbatim>\<open>size_t\<close>.
\<close>

definition addressable :: "'a state \<Rightarrow> bool" where
  "addressable s \<longleftrightarrow>
     0 < sizeof_T s \<and>
     (\<forall>p cells. mem s p = Some cells \<longrightarrow> length cells * sizeof_T s < 2 ^ size_bits s)"

text \<open>
  The object at \<open>this\<close> is a Backing Store of \<open>count\<close> elements: its \<^verbatim>\<open>n\<close> is \<open>count\<close>,
  and its \<^verbatim>\<open>a\<close> is a buffer of \<open>count\<close> slots when \<open>count\<close> is positive and \<^verbatim>\<open>NULL\<close>
  otherwise, as the constructor leaves them.
\<close>

definition is_store :: "addr \<Rightarrow> int \<Rightarrow> 'a state \<Rightarrow> bool" where
  "is_store this count s =
     (case objs s this of
        None \<Rightarrow> False
      | Some ob \<Rightarrow>
          sao_n ob = count \<and>
          (if 0 < count then
             (case mem s (sao_a ob) of
                None \<Rightarrow> False
              | Some cells \<Rightarrow> int (length cells) = count)
           else sao_a ob = 0))"

definition bound_to :: "SharedArray \<Rightarrow> int \<Rightarrow> 'a state \<Rightarrow> bool" where
  "bound_to h count s \<longleftrightarrow> object h \<noteq> 0 \<and> is_store (object h) count s"

text \<open>The slots of the store at \<open>this\<close>, in index order.\<close>

definition elements :: "addr \<Rightarrow> 'a state \<Rightarrow> 'a option list" where
  "elements this s =
     (case objs s this of
        None \<Rightarrow> []
      | Some ob \<Rightarrow> (case mem s (sao_a ob) of None \<Rightarrow> [] | Some cells \<Rightarrow> cells))"

subsection \<open>The operations on a handle\<close>

text \<open>
  The member functions a caller can invoke on a handle, as the transitions of the
  handle's state machine. Element access, \<^verbatim>\<open>size\<close> and copy construction from the handle
  take it as \<^verbatim>\<open>const\<close> or leave \<^verbatim>\<open>this\<close> as it is; \<^verbatim>\<open>init\<close> is the one member function that
  assigns to it. A step that fails ends the program.
\<close>

datatype 'a operation = ElementRead int | ElementWrite int 'a | Length | CopyConstruct | Init int

fun step :: "'a operation \<Rightarrow> SharedArray \<Rightarrow> 'a state \<Rightarrow> error + (SharedArray \<times> 'a state)" where
  "step (ElementRead i) h s = (case read_at h i s of Inl e \<Rightarrow> Inl e | Inr v \<Rightarrow> Inr (h, s))"
| "step (ElementWrite i v) h s =
     (case assign_at h i v s of Inl e \<Rightarrow> Inl e | Inr s' \<Rightarrow> Inr (h, s'))"
| "step Length h s = (case SharedArray_size h s of Inl e \<Rightarrow> Inl e | Inr k \<Rightarrow> Inr (h, s))"
| "step CopyConstruct h s =
     (case SharedArray_copy h s of Inl e \<Rightarrow> Inl e | Inr (b, s') \<Rightarrow> Inr (h, s'))"
| "step (Init k) h s = SharedArray_init h k s"

text \<open>
  The handle and the store before each operation of a sequence, and after the last one;
  the sequence stops at the first operation that fails.
\<close>

fun run :: "'a operation list \<Rightarrow> SharedArray \<Rightarrow> 'a state \<Rightarrow> (SharedArray \<times> 'a state) list" where
  "run [] h s = [(h, s)]"
| "run (x # xs) h s =
     (h, s) # (case step x h s of Inl e \<Rightarrow> [] | Inr (h', s') \<Rightarrow> run xs h' s')"

subsection \<open>A concrete store\<close>

text \<open>
  The handle and the store that \<^verbatim>\<open>SharedArray<int> A(3);\<close> produces in the initial state
  for elements of 4 bytes, a \<^verbatim>\<open>size_t\<close> of 32 bits and 32 bytes available: the buffer of 12
  bytes at address 1, the object at address 2.
\<close>

definition example_handle :: SharedArray where
  "example_handle = \<lparr>object = 2\<rparr>"

definition example_store :: "int state" where
  "example_store =
     \<lparr>objs = [2 \<mapsto> \<lparr>use_cnt = 1, sao_a = 1, sao_n = 3\<rparr>],
      mem = [1 \<mapsto> [None, None, None]],
      next_addr = 3, avail = 20, trace = [Malloc 1 12],
      sizeof_T = 4, size_bits = 32\<rparr>"

text \<open>The same store after \<^verbatim>\<open>A[0] = 10; A[1] = 20; A[2] = 30;\<close>.\<close>

definition filled_store :: "int state" where
  "filled_store = example_store\<lparr>mem := [1 \<mapsto> [Some 10, Some 20, Some 30]]\<rparr>"

section \<open>Properties\<close>

subsection \<open>Reference counting, allocation and well-formedness\<close>

lemma wf_init_state: "wf_state (init_state sz w k)"
  by (simp add: wf_state_def init_state_def)

lemma addressable_init_state: "0 < sz \<Longrightarrow> addressable (init_state sz w k)"
  by (simp add: addressable_def init_state_def)

lemma subscribe_addressable:
  "subscribe p s = Inr s' \<Longrightarrow> addressable s \<Longrightarrow> addressable s'"
  by (auto simp: addressable_def subscribe_def split: if_splits option.splits)

lemma put_addressable:
  "put r c s = Inr s' \<Longrightarrow> addressable s \<Longrightarrow> addressable s'"
  by (auto simp: addressable_def put_def split: ref.splits option.splits if_splits)

lemma Memory_free_addressable:
  "Memory_free p s = Inr s' \<Longrightarrow> addressable s \<Longrightarrow> addressable s'"
  by (auto simp: addressable_def Memory_free_def split: option.splits if_splits)

lemma subscribe_fields:
  "subscribe p s = Inr s' \<Longrightarrow>
     mem s' = mem s \<and> next_addr s' = next_addr s \<and> avail s' = avail s \<and> trace s' = trace s"
  by (auto simp: subscribe_def split: if_splits option.splits)

lemma subscribe_objs:
  "subscribe p s = Inr s' \<Longrightarrow>
     objs s' q = (if q = p \<and> p \<noteq> 0
                  then map_option (\<lambda>ob. ob\<lparr>use_cnt := Suc (use_cnt ob)\<rparr>) (objs s q)
                  else objs s q)"
  by (auto simp: subscribe_def split: if_splits option.splits)

lemma subscribe_succeeds:
  "p = 0 \<or> objs s p \<noteq> None \<Longrightarrow> \<exists>s'. subscribe p s = Inr s'"
  by (auto simp: subscribe_def split: option.splits)

lemma subscribe_is_store:
  "subscribe p s = Inr s' \<Longrightarrow> is_store q c s' = is_store q c s"
  by (auto simp: is_store_def subscribe_objs subscribe_fields split: option.splits)

lemma subscribe_SAO_size:
  "subscribe p s = Inr s' \<Longrightarrow> SAO_size q s' = SAO_size q s"
  by (auto simp: SAO_size_def subscribe_objs split: option.splits)

lemma subscribe_SAO_index:
  "subscribe p s = Inr s' \<Longrightarrow> SAO_index q i s' = SAO_index q i s"
  by (auto simp: SAO_index_def subscribe_objs split: option.splits)

lemma subscribe_wf:
  "subscribe p s = Inr s' \<Longrightarrow> wf_state s \<Longrightarrow> wf_state s'"
  by (auto simp: wf_state_def subscribe_def split: if_splits option.splits)

lemma Memory_malloc_succeeds:
  "k \<le> avail s \<Longrightarrow> \<exists>p s'. Memory_malloc k s = Inr (p, s')"
  by (simp add: Memory_malloc_def)

lemma byte_count_bound: "byte_count s n0 < 2 ^ size_bits s"
  by (simp add: byte_count_def)

lemma byte_count_exact:
  "sizeof_T s * nat n0 < 2 ^ size_bits s \<Longrightarrow> byte_count s n0 = sizeof_T s * nat n0"
  by (simp add: byte_count_def)

lemma new_SAO_succeeds:
  "byte_count s n0 \<le> avail s \<Longrightarrow> \<exists>p s'. new_SAO n0 s = Inr (p, s')"
  by (auto simp: new_SAO_def SAO_ctor_def Memory_malloc_def)

lemma new_SAO_nonpositive:
  assumes "n0 \<le> 0"
  shows "new_SAO n0 s =
           Inr (next_addr s,
                s\<lparr>objs := (objs s)(next_addr s \<mapsto> \<lparr>use_cnt = 0, sao_a = 0, sao_n = n0\<rparr>),
                  next_addr := Suc (next_addr s)\<rparr>)"
  using assms by (simp add: new_SAO_def SAO_ctor_def)

lemma new_SAO_positive:
  assumes "0 < n0" and "byte_count s n0 \<le> avail s"
  shows "new_SAO n0 s =
           Inr (Suc (next_addr s),
                s\<lparr>mem := (mem s)(next_addr s \<mapsto> replicate (byte_count s n0 div sizeof_T s) None),
                  next_addr := Suc (Suc (next_addr s)),
                  avail := avail s - byte_count s n0,
                  trace := trace s @ [Malloc (next_addr s) (byte_count s n0)],
                  objs := (objs s)(Suc (next_addr s) \<mapsto>
                            \<lparr>use_cnt = 0, sao_a = next_addr s, sao_n = n0\<rparr>)\<rparr>)"
  using assms by (simp add: new_SAO_def SAO_ctor_def Memory_malloc_def)

lemma new_SAO_room:
  "new_SAO n0 s = Inr (p, s') \<Longrightarrow> 0 < n0 \<Longrightarrow> byte_count s n0 \<le> avail s"
  by (auto simp: new_SAO_def SAO_ctor_def Memory_malloc_def split: if_splits sum.splits)

lemma new_SAO_fresh:
  "wf_state s \<Longrightarrow> new_SAO n0 s = Inr (p, s') \<Longrightarrow> p \<noteq> 0 \<and> objs s p = None \<and> mem s p = None"
  by (auto simp: new_SAO_def SAO_ctor_def Memory_malloc_def wf_state_def
           split: if_splits sum.splits)

text \<open>
  When the product \<^verbatim>\<open>sizeof(T)*n\<close> does not wrap, the object constructed is a store of
  \<open>n\<close> elements.
\<close>

lemma new_SAO_is_store:
  assumes wf: "wf_state s" and new: "new_SAO n0 s = Inr (p, s')"
    and sz: "0 < sizeof_T s" and nowrap: "sizeof_T s * nat n0 < 2 ^ size_bits s"
  shows "is_store p n0 s'"
proof (cases "0 < n0")
  case False
  then show ?thesis
    using new by (auto simp: new_SAO_nonpositive is_store_def)
next
  case True
  have slots: "byte_count s n0 div sizeof_T s = nat n0"
    using sz by (simp add: byte_count_exact [OF nowrap])
  show ?thesis
    using new True slots
    by (auto simp: new_SAO_positive [OF True new_SAO_room [OF new True]] is_store_def)
qed

lemma new_SAO_wf:
  assumes wf: "wf_state s" and new: "new_SAO n0 s = Inr (p, s')"
  shows "wf_state s'"
proof (cases "0 < n0")
  case False
  then show ?thesis
    using wf new
    by (auto simp: new_SAO_nonpositive wf_state_def split: if_splits) (meson less_SucI)+
next
  case True
  show ?thesis
    using wf new
    by (auto simp: new_SAO_positive [OF True new_SAO_room [OF new True]] wf_state_def
             split: if_splits)
       (meson less_SucI)+
qed

text \<open>The buffer the constructor obtains lies within the address space.\<close>

lemma new_SAO_addressable:
  assumes ad: "addressable s" and new: "new_SAO n0 s = Inr (p, s')"
  shows "addressable s'"
proof (cases "0 < n0")
  case False
  then show ?thesis
    using ad new by (auto simp: new_SAO_nonpositive addressable_def)
next
  case True
  have fits: "byte_count s n0 div sizeof_T s * sizeof_T s < 2 ^ size_bits s"
    by (rule le_less_trans [OF div_times_less_eq_dividend byte_count_bound])
  show ?thesis
    using ad new fits
    by (auto simp: new_SAO_positive [OF True new_SAO_room [OF new True]] addressable_def
             split: if_splits)
qed

lemma new_SAO_size:
  "new_SAO n0 s = Inr (p, s') \<Longrightarrow> SAO_size p s' = Inr n0"
  by (auto simp: new_SAO_def SAO_ctor_def Memory_malloc_def SAO_size_def
           split: if_splits sum.splits)

lemma new_SAO_objs_defined:
  "new_SAO n0 s = Inr (p, s') \<Longrightarrow> objs s' p \<noteq> None"
  by (auto simp: new_SAO_def SAO_ctor_def Memory_malloc_def 
           split: if_splits sum.splits)

lemma avail_init_state: "avail (init_state sz w k) = k"
  by (simp add: init_state_def)

subsection \<open>Length of a freshly bound handle\<close>

text \<open>
  C5. For every \<open>count \<ge> 0\<close>, a handle freshly bound to a new Backing Store of
  \<open>count\<close> elements, by the constructor \<^verbatim>\<open>SharedArray(count)\<close> or by \<^verbatim>\<open>init(count)\<close> on
  a handle that references nothing, has \<^verbatim>\<open>size() == count\<close>. Both calls return a handle
  whenever the allocator has the bytes requested left.
\<close>

theorem fresh_bind_length:
  assumes "wf_state s" and "0 \<le> count" and "object h0 = 0"
  shows "(byte_count s count \<le> avail s \<longrightarrow>
            (\<exists>h s'. SharedArray_int count s = Inr (h, s')) \<and>
            (\<exists>h s'. SharedArray_init h0 count s = Inr (h, s'))) \<and>
         (\<forall>h s'. SharedArray_int count s = Inr (h, s') \<longrightarrow> SharedArray_size h s' = Inr count) \<and>
         (\<forall>h s'. SharedArray_init h0 count s = Inr (h, s') \<longrightarrow> SharedArray_size h s' = Inr count)"
proof (intro conjI impI allI)
  assume "byte_count s count \<le> avail s"
  then obtain p s1 where new: "new_SAO count s = Inr (p, s1)"
    using new_SAO_succeeds by blast
  then obtain s2 where sub: "subscribe p s1 = Inr s2"
    using subscribe_succeeds [of p s1] new_SAO_objs_defined [OF new] by blast
  show "\<exists>h s'. SharedArray_int count s = Inr (h, s')"
    by (simp add: SharedArray_int_def SharedHandle_of_object_def new sub)
  show "\<exists>h s'. SharedArray_init h0 count s = Inr (h, s')"
    using assms(3) by (simp add: SharedArray_init_def set_object_def new sub)
next
  fix h s'
  assume "SharedArray_int count s = Inr (h, s')"
  then obtain p s1 where new: "new_SAO count s = Inr (p, s1)"
    and sub: "subscribe p s1 = Inr s'" and h: "object h = p"
    by (auto simp: SharedArray_int_def SharedHandle_of_object_def split: sum.splits)
  have "p \<noteq> 0" using new_SAO_fresh [OF assms(1) new] by simp
  then show "SharedArray_size h s' = Inr count"
    using h new_SAO_size [OF new] subscribe_SAO_size [OF sub]
    by (simp add: SharedArray_size_def)
next
  fix h s'
  assume "SharedArray_init h0 count s = Inr (h, s')"
  then obtain p s1 where new: "new_SAO count s = Inr (p, s1)"
    and sub: "subscribe p s1 = Inr s'" and h: "object h = p"
    by (auto simp: SharedArray_init_def set_object_def split: sum.splits if_splits)
  have "p \<noteq> 0" using new_SAO_fresh [OF assms(1) new] by simp
  then show "SharedArray_size h s' = Inr count"
    using h new_SAO_size [OF new] subscribe_SAO_size [OF sub]
    by (simp add: SharedArray_size_def)
qed

theorem fresh_bind_length_witness:
  "wf_state (init_state 4 32 20 :: nat state) \<and> (0::int) \<le> 3 \<and> object SharedArray_void = 0 \<and>
   byte_count (init_state 4 32 20 :: nat state) 3 \<le> avail (init_state 4 32 20 :: nat state) \<and>
   (\<exists>h s'. SharedArray_int 3 (init_state 4 32 20 :: nat state) = Inr (h, s')
        \<and> SharedArray_size h s' = Inr 3) \<and>
   (\<exists>h s'. SharedArray_init SharedArray_void 3 (init_state 4 32 20 :: nat state) = Inr (h, s')
        \<and> SharedArray_size h s' = Inr 3)"
proof -
  have wf: "wf_state (init_state 4 32 20 :: nat state)" by (simp add: wf_init_state)
  have unbound: "object SharedArray_void = 0" by (simp add: SharedArray_void_def)
  have room: "byte_count (init_state 4 32 20 :: nat state) 3 \<le> avail (init_state 4 32 20 :: nat state)" by (simp add: byte_count_def init_state_def)
  show ?thesis
    using fresh_bind_length [OF wf _ unbound, of 3] wf unbound room by simp blast
qed

subsection \<open>Access through a bound handle\<close>

lemma bound_index:
  assumes "bound_to h count s" and "0 \<le> i" and "i < count"
  shows "\<exists>p cells. SharedArray_index h i s = Inr (Ref p i) \<and> mem s p = Some cells
           \<and> int (length cells) = count"
  using assms
  by (auto simp: bound_to_def is_store_def SharedArray_index_def SAO_index_def
           split: option.splits if_splits)

lemma put_fields:
  "put r c s = Inr s' \<Longrightarrow>
     objs s' = objs s \<and> next_addr s' = next_addr s \<and> avail s' = avail s \<and> trace s' = trace s"
  by (auto simp: put_def split: ref.splits option.splits if_splits)

lemma put_index_same:
  "put r c s = Inr s' \<Longrightarrow> SharedArray_index h i s' = SharedArray_index h i s"
  by (auto simp: SharedArray_index_def SAO_index_def dest: put_fields)

lemma store_load:
  assumes "mem s p = Some cells" and "0 \<le> i" and "i < int (length cells)"
  shows "\<exists>s'. store (Ref p i) v s = Inr s' \<and> load (Ref p i) s' = Inr (Some v)"
  using assms by (simp add: store_def put_def load_def)

lemma bound_assign_read:
  assumes "bound_to h count s" and "0 \<le> i" and "i < count"
  shows "\<exists>s'. assign_at h i v s = Inr s' \<and> read_at h i s' = Inr (Some v)"
proof -
  obtain p cells where idx: "SharedArray_index h i s = Inr (Ref p i)"
    and buf: "mem s p = Some cells" and len: "int (length cells) = count"
    using bound_index [OF assms] by blast
  obtain s' where st: "store (Ref p i) v s = Inr s'" and ld: "load (Ref p i) s' = Inr (Some v)"
    using store_load [OF buf assms(2)] assms(3) len by auto
  have "SharedArray_index h i s' = Inr (Ref p i)"
    using put_index_same [of "Ref p i" "Some v" s s'] st idx by (simp add: store_def)
  then show ?thesis
    using idx st ld by (simp add: assign_at_def read_at_def)
qed

text \<open>
  C6. Write-then-read round trip: for a handle bound to a store of \<open>count\<close> elements
  and an index \<open>i\<close> in \<open>[0, count)\<close>, the assignment \<^verbatim>\<open>h[i] = v\<close> goes through, and
  reading \<^verbatim>\<open>h[i]\<close> through the same handle right after it returns \<open>v\<close>.
\<close>

theorem write_then_read:
  assumes "bound_to h count s" and "0 \<le> i" and "i < count"
  shows "\<exists>s'. assign_at h i v s = Inr s' \<and> read_at h i s' = Inr (Some v)"
  using assms by (rule bound_assign_read)

lemma subscribe_bound_to:
  "subscribe p s = Inr s' \<Longrightarrow> bound_to h c s' = bound_to h c s"
  by (simp add: bound_to_def subscribe_is_store)

subsection \<open>Sharing\<close>

text \<open>
  C1. Sharing law: for a handle \<open>A\<close> bound to a store of \<open>count\<close> elements, copy
  construction returns a handle \<open>B\<close> that references the same store as \<open>A\<close>; the
  store's reference count is one higher and no buffer is touched. For every index
  \<open>i\<close> in \<open>[0, count)\<close>, a value written through \<open>A\<close> at \<open>i\<close> is read back through
  \<open>B\<close> at \<open>i\<close>, and a value written through \<open>B\<close> is read back through \<open>A\<close>.
\<close>

theorem sharing_law:
  assumes "bound_to A count s"
  shows "\<exists>B s1. SharedArray_copy A s = Inr (B, s1) \<and> object B = object A \<and>
           map_option use_cnt (objs s1 (object A)) = map_option (\<lambda>ob. Suc (use_cnt ob)) (objs s (object A)) \<and>
           mem s1 = mem s \<and> trace s1 = trace s \<and>
           (\<forall>i v. 0 \<le> i \<and> i < count \<longrightarrow>
              (\<exists>s2. assign_at A i v s1 = Inr s2 \<and> read_at B i s2 = Inr (Some v)) \<and>
              (\<exists>s2. assign_at B i v s1 = Inr s2 \<and> read_at A i s2 = Inr (Some v)))"
proof -
  have "objs s (object A) \<noteq> None"
    using assms by (auto simp: bound_to_def is_store_def split: option.splits)
  then obtain s1 where sub: "subscribe (object A) s = Inr s1"
    using subscribe_succeeds by blast
  have cp: "SharedArray_copy A s = Inr (A, s1)"
    by (simp add: SharedArray_copy_def SharedHandle_copy_def sub)
  have cnt: "map_option use_cnt (objs s1 (object A))
               = map_option (\<lambda>ob. Suc (use_cnt ob)) (objs s (object A))"
    using assms subscribe_objs [OF sub, of "object A"]
    by (cases "objs s (object A)") (auto simp: bound_to_def)
  have b1: "bound_to A count s1"
    using assms subscribe_bound_to [OF sub] by simp
  have rw: "\<And>i v. 0 \<le> i \<and> i < count \<Longrightarrow>
              \<exists>s2. assign_at A i v s1 = Inr s2 \<and> read_at A i s2 = Inr (Some v)"
    using bound_assign_read [OF b1] by blast
  show ?thesis
    using cp cnt subscribe_fields [OF sub] rw
    by (intro exI [of _ A] exI [of _ s1]) simp
qed


subsection \<open>A bound handle to start from\<close>

lemma SharedArray_int_bound:
  assumes "wf_state s" and "SharedArray_int n0 s = Inr (h, s')"
    and "0 < sizeof_T s" and "sizeof_T s * nat n0 < 2 ^ size_bits s"
  shows "bound_to h n0 s' \<and> wf_state s'"
proof -
  obtain p s1 where new: "new_SAO n0 s = Inr (p, s1)"
    and sub: "subscribe p s1 = Inr s'" and h: "object h = p"
    using assms(2)
    by (auto simp: SharedArray_int_def SharedHandle_of_object_def split: sum.splits)
  show ?thesis
    using new_SAO_fresh [OF assms(1) new] new_SAO_is_store [OF assms(1) new assms(3,4)]
      new_SAO_wf [OF assms(1) new] subscribe_is_store [OF sub] subscribe_wf [OF sub] h
    by (simp add: bound_to_def)
qed

lemma SharedArray_int_addressable:
  assumes "addressable s" and "SharedArray_int n0 s = Inr (h, s')"
  shows "addressable s'"
proof -
  obtain p s1 where new: "new_SAO n0 s = Inr (p, s1)" and sub: "subscribe p s1 = Inr s'"
    using assms(2)
    by (auto simp: SharedArray_int_def SharedHandle_of_object_def split: sum.splits)
  show ?thesis
    using subscribe_addressable [OF sub new_SAO_addressable [OF assms(1) new]] .
qed

lemma assign_at_addressable:
  "assign_at h i v s = Inr s' \<Longrightarrow> addressable s \<Longrightarrow> addressable s'"
  by (auto simp: assign_at_def store_def split: sum.splits dest: put_addressable)

lemma SharedArray_int_succeeds:
  assumes "byte_count s n0 \<le> avail s"
  shows "\<exists>h s'. SharedArray_int n0 s = Inr (h, s')"
proof -
  obtain p s1 where new: "new_SAO n0 s = Inr (p, s1)"
    using new_SAO_succeeds [OF assms] by blast
  then obtain s2 where "subscribe p s1 = Inr s2"
    using subscribe_succeeds [of p s1] new_SAO_objs_defined [OF new] by blast
  then show ?thesis
    by (simp add: SharedArray_int_def SharedHandle_of_object_def new)
qed

lemma example_bound:
  "\<exists>h s. SharedArray_int 3 (init_state 4 32 20 :: int state) = Inr (h, s) \<and> bound_to h 3 s \<and> wf_state s"
proof -
  let ?s = "init_state 4 32 20 :: int state"
  have wf: "wf_state ?s" by (simp add: wf_init_state)
  have sz: "0 < sizeof_T ?s" by (simp add: init_state_def)
  have nowrap: "sizeof_T ?s * nat 3 < 2 ^ size_bits ?s" by (simp add: init_state_def)
  obtain h s where bind: "SharedArray_int 3 ?s = Inr (h, s)"
    using SharedArray_int_succeeds [of ?s 3]
    by (auto simp: byte_count_def init_state_def)
  then show ?thesis
    using SharedArray_int_bound [OF wf bind sz nowrap] by blast
qed

text \<open>The round trip of C6 on a handle bound to three elements, at index 1.\<close>

theorem write_then_read_witness:
  "\<exists>h s. SharedArray_int 3 (init_state 4 32 20 :: int state) = Inr (h, s) \<and> bound_to h 3 s \<and>
         (0::int) \<le> 1 \<and> (1::int) < 3 \<and>
         (\<exists>s'. assign_at h 1 99 s = Inr s' \<and> read_at h 1 s' = Inr (Some 99))"
proof -
  obtain h s where bind: "SharedArray_int 3 (init_state 4 32 20 :: int state) = Inr (h, s)"
    and b: "bound_to h 3 s"
    using example_bound by blast
  show ?thesis
    using write_then_read [OF b, of 1 99] bind b by auto
qed

text \<open>The sharing law of C1 on a handle bound to three elements, in both directions.\<close>

theorem sharing_law_witness:
  "\<exists>A s. SharedArray_int 3 (init_state 4 32 20 :: int state) = Inr (A, s) \<and> bound_to A 3 s \<and>
     (\<exists>B s1. SharedArray_copy A s = Inr (B, s1) \<and> object B = object A \<and>
        (\<exists>s2. assign_at A 1 99 s1 = Inr s2 \<and> read_at B 1 s2 = Inr (Some 99)) \<and>
        (\<exists>s2. assign_at B 2 7 s1 = Inr s2 \<and> read_at A 2 s2 = Inr (Some 7)))"
proof -
  obtain A s where bind: "SharedArray_int 3 (init_state 4 32 20 :: int state) = Inr (A, s)"
    and b: "bound_to A 3 s"
    using example_bound by blast
  obtain B s1 where cp: "SharedArray_copy A s = Inr (B, s1)" and same: "object B = object A"
    and rw: "\<forall>i v. 0 \<le> i \<and> i < 3 \<longrightarrow>
              (\<exists>s2. assign_at A i v s1 = Inr s2 \<and> read_at B i s2 = Inr (Some v)) \<and>
              (\<exists>s2. assign_at B i v s1 = Inr s2 \<and> read_at A i s2 = Inr (Some v))"
    using sharing_law [OF b] by blast
  have "\<exists>s2. assign_at A 1 99 s1 = Inr s2 \<and> read_at B 1 s2 = Inr (Some 99)"
    using rw [rule_format, of 1 99] by simp
  moreover have "\<exists>s2. assign_at B 2 7 s1 = Inr s2 \<and> read_at A 2 s2 = Inr (Some 7)"
    using rw [rule_format, of 2 7] by simp
  ultimately show ?thesis
    using bind b cp same by blast
qed

subsection \<open>One-time initialization\<close>


text \<open>
  At a count whose byte size wraps, the constructor stores the count and obtains a
  buffer that is too short. With elements of 4 bytes and a \<^verbatim>\<open>size_t\<close> of 32 bits the
  request for \<open>2 ^ 30\<close> elements is a request for 0 bytes: the handle is bound, its size
  is \<open>2 ^ 30\<close>, the bounds assertion of \<^verbatim>\<open>operator[]\<close> holds at index 0, and the reference
  returned designates no slot.
\<close>

lemma wrapping_count_short_buffer:
  "\<exists>h s' r. SharedArray_init SharedArray_void 1073741824 (init_state 4 32 20 :: int state)
               = Inr (h, s') \<and>
     SharedArray_size h s' = Inr 1073741824 \<and> elements (object h) s' = [] \<and>
     \<not> bound_to h 1073741824 s' \<and>
     SharedArray_index h 0 s' = Inr r \<and> store r 7 s' = Inl InvalidPointer"
  by (simp add: SharedArray_init_def SharedArray_void_def set_object_def subscribe_def
        new_SAO_def SAO_ctor_def Memory_malloc_def byte_count_def init_state_def
        SharedArray_size_def SAO_size_def elements_def bound_to_def is_store_def
        SharedArray_index_def SAO_index_def store_def put_def)



subsection \<open>Stores without a buffer\<close>

lemma SAO_dtor_nonpositive:
  "objs s this = Some ob \<Longrightarrow> sao_n ob \<le> 0 \<Longrightarrow> SAO_dtor this s = Inr s"
  by (simp add: SAO_dtor_def)

lemma subscribe_SAO_dtor_nonpositive:
  assumes "subscribe p s = Inr s'" and "objs s q = Some ob" and "sao_n ob \<le> 0"
  shows "SAO_dtor q s' = Inr s'"
proof -
  obtain ob' where "objs s' q = Some ob'" and "sao_n ob' = sao_n ob"
    using assms(2) subscribe_objs [OF assms(1), of q] by (cases "q = p \<and> p \<noteq> 0") auto
  then show ?thesis
    using assms(3) by (simp add: SAO_dtor_def)
qed

lemma bind_zero:
  assumes wf: "wf_state s" and new: "new_SAO 0 s = Inr (p, s1)" and sub: "subscribe p s1 = Inr s'"
    and h: "object h = p"
  shows "SharedArray_size h s' = Inr 0 \<and>
         (\<forall>i. SharedArray_index h i s' = Inl AssertionFailed) \<and>
         mem s' = mem s \<and> avail s' = avail s \<and> trace s' = trace s \<and>
         SAO_dtor (object h) s' = Inr s'"
proof -
  have p: "p \<noteq> 0" using new_SAO_fresh [OF wf new] by simp
  have s1: "objs s1 p = Some \<lparr>use_cnt = 0, sao_a = 0, sao_n = 0\<rparr>"
    and same: "mem s1 = mem s" "avail s1 = avail s" "trace s1 = trace s"
    using new by (auto simp: new_SAO_nonpositive)
  have size: "SharedArray_size h s' = Inr 0"
    using h p new_SAO_size [OF new] subscribe_SAO_size [OF sub]
    by (simp add: SharedArray_size_def)
  have idx: "SharedArray_index h i s' = Inl AssertionFailed" for i
    using h p s1 subscribe_SAO_index [OF sub, of p i]
    by (simp add: SharedArray_index_def SAO_index_def)
  have dtor: "SAO_dtor (object h) s' = Inr s'"
    using subscribe_SAO_dtor_nonpositive [OF sub s1] h by simp
  show ?thesis
    using size idx dtor same subscribe_fields [OF sub] by simp
qed

text \<open>
  C4. Zero-length law: the constructor of a store of 0 elements takes the branch
  without \<^verbatim>\<open>Memory::malloc\<close> and leaves \<^verbatim>\<open>a\<close> at \<^verbatim>\<open>NULL\<close>. A handle bound with count 0,
  by \<^verbatim>\<open>SharedArray(0)\<close> or by \<^verbatim>\<open>init(0)\<close>, has \<^verbatim>\<open>size() == 0\<close>; \<^verbatim>\<open>operator[]\<close> fails
  the bounds assertion at every index; binding it has called neither \<^verbatim>\<open>Memory::malloc\<close>
  nor \<^verbatim>\<open>Memory::free\<close> (the buffers, the bytes available and the trace are as before);
  and the destructor of its store changes nothing.
\<close>

theorem zero_length:
  assumes "wf_state s" and "object h0 = 0"
  shows "(\<exists>ob. SAO_ctor 0 s = Inr (ob, s) \<and> sao_a ob = 0) \<and>
         (\<exists>h s'. SharedArray_int 0 s = Inr (h, s')) \<and>
         (\<exists>h s'. SharedArray_init h0 0 s = Inr (h, s')) \<and>
         (\<forall>h s'. SharedArray_int 0 s = Inr (h, s') \<or> SharedArray_init h0 0 s = Inr (h, s') \<longrightarrow>
            SharedArray_size h s' = Inr 0 \<and>
            (\<forall>i. SharedArray_index h i s' = Inl AssertionFailed) \<and>
            mem s' = mem s \<and> avail s' = avail s \<and> trace s' = trace s \<and>
            SAO_dtor (object h) s' = Inr s')"
proof -
  have ctor: "\<exists>ob. SAO_ctor 0 s = Inr (ob, s) \<and> sao_a ob = 0"
    by (simp add: SAO_ctor_def)
  obtain p s1 where new: "new_SAO 0 s = Inr (p, s1)"
    using new_SAO_succeeds [of s 0] by (auto simp: byte_count_def)
  obtain s2 where sub: "subscribe p s1 = Inr s2"
    using subscribe_succeeds [of p s1] new_SAO_objs_defined [OF new] by blast
  have ex1: "\<exists>h s'. SharedArray_int 0 s = Inr (h, s')"
    by (simp add: SharedArray_int_def SharedHandle_of_object_def new sub)
  have ex2: "\<exists>h s'. SharedArray_init h0 0 s = Inr (h, s')"
    using assms(2) by (simp add: SharedArray_init_def set_object_def new sub)
  have law: "SharedArray_size h s' = Inr 0 \<and>
            (\<forall>i. SharedArray_index h i s' = Inl AssertionFailed) \<and>
            mem s' = mem s \<and> avail s' = avail s \<and> trace s' = trace s \<and>
            SAO_dtor (object h) s' = Inr s'"
    if "SharedArray_int 0 s = Inr (h, s') \<or> SharedArray_init h0 0 s = Inr (h, s')" for h s'
  proof -
    have "subscribe p s1 = Inr s' \<and> object h = p"
      using that new assms(2)
      by (auto simp: SharedArray_int_def SharedHandle_of_object_def SharedArray_init_def
            set_object_def split: sum.splits)
    then show ?thesis
      using bind_zero [OF assms(1) new] by blast
  qed
  show ?thesis
    using ctor ex1 ex2 law by blast
qed

text \<open>The zero-length law on the empty initial state.\<close>

theorem zero_length_witness:
  "wf_state (init_state 4 32 20 :: int state) \<and> object SharedArray_void = 0 \<and>
   (\<exists>h s'. SharedArray_int 0 (init_state 4 32 20 :: int state) = Inr (h, s') \<and>
      SharedArray_size h s' = Inr 0 \<and> SharedArray_index h 0 s' = Inl AssertionFailed \<and>
      trace s' = [] \<and> SAO_dtor (object h) s' = Inr s')"
proof -
  have wf: "wf_state (init_state 4 32 20 :: int state)" by (simp add: wf_init_state)
  have unbound: "object SharedArray_void = 0" by (simp add: SharedArray_void_def)
  have tr: "trace (init_state 4 32 20 :: int state) = []" by (simp add: init_state_def)
  show ?thesis
    using zero_length [OF wf unbound] wf unbound tr by (metis (no_types, lifting))
qed

text \<open>
  C9. Negative count: for \<open>n < 0\<close> the constructor is not rejected; it takes the same
  branch as for 0, so no buffer is allocated and \<^verbatim>\<open>a\<close> is \<^verbatim>\<open>NULL\<close>; \<^verbatim>\<open>size()\<close> returns the
  negative \<open>n\<close>; and the destructor destroys no element and frees nothing.
\<close>

theorem negative_count:
  assumes "n0 < 0"
  shows "SAO_ctor n0 s = Inr (\<lparr>use_cnt = 0, sao_a = 0, sao_n = n0\<rparr>, s) \<and>
         (\<exists>p s'. new_SAO n0 s = Inr (p, s') \<and>
            mem s' = mem s \<and> avail s' = avail s \<and> trace s' = trace s \<and>
            SAO_size p s' = Inr n0 \<and> SAO_dtor p s' = Inr s')"
  using assms by (simp add: SAO_ctor_def new_SAO_nonpositive SAO_size_def SAO_dtor_def)

text \<open>A store constructed with count -2.\<close>

theorem negative_count_witness:
  "(-2::int) < 0 \<and>
   SAO_ctor (-2) (init_state 4 32 20 :: int state)
     = Inr (\<lparr>use_cnt = 0, sao_a = 0, sao_n = -2\<rparr>, init_state 4 32 20) \<and>
   (\<exists>p s'. new_SAO (-2) (init_state 4 32 20 :: int state) = Inr (p, s') \<and>
      trace s' = [] \<and> SAO_size p s' = Inr (-2) \<and> SAO_dtor p s' = Inr s')"
proof -
  have tr: "trace (init_state 4 32 20 :: int state) = []" by (simp add: init_state_def)
  show ?thesis
    using negative_count [of "-2" "init_state 4 32 20 :: int state"] tr by auto
qed

subsection \<open>The state machine of a handle\<close>

lemma step_keeps_binding:
  assumes "object h \<noteq> 0" and "step x h s = Inr (h', s')"
  shows "object h' = object h"
  using assms
  by (cases x) (auto simp: SharedArray_init_def split: sum.splits)

lemma run_keeps_binding:
  "object h \<noteq> 0 \<Longrightarrow> c \<in> set (run ops h s) \<Longrightarrow> object (fst c) = object h"
proof (induction ops arbitrary: h s)
  case Nil
  then show ?case by simp
next
  case (Cons x xs)
  show ?case
  proof (cases "step x h s")
    case (Inl e)
    then show ?thesis using Cons.prems by simp
  next
    case (Inr r)
    obtain h' s' where r: "r = (h', s')" by (cases r)
    have same: "object h' = object h"
      using step_keeps_binding [OF Cons.prems(1)] Inr r by simp
    from Cons.prems(2) Inr r have "c = (h, s) \<or> c \<in> set (run xs h' s')" by simp
    then show ?thesis
    proof
      assume "c = (h, s)"
      then show ?thesis by simp
    next
      assume "c \<in> set (run xs h' s')"
      then show ?thesis
        using Cons.IH [of h' s'] same Cons.prems(1) by simp
    qed
  qed
qed

text \<open>
  C8. No un-binding: once a handle references a store, it references that store before
  and after every operation of any sequence of element reads and writes, \<^verbatim>\<open>size\<close>, copy
  constructions from it and calls of \<^verbatim>\<open>init\<close>; it never references nothing again. An
  attempted \<^verbatim>\<open>init\<close> fails its assertion.
\<close>

theorem no_unbinding:
  assumes "object h \<noteq> 0"
  shows "(\<forall>c \<in> set (run ops h s). object (fst c) = object h \<and> object (fst c) \<noteq> 0) \<and>
         (\<forall>k. step (Init k) h s = Inl AssertionFailed)"
  using assms run_keeps_binding [OF assms] by (auto simp: SharedArray_init_def)

text \<open>The concrete store is the one the constructor builds; it is well formed.\<close>

lemma example_eval:
  "SharedArray_int 3 (init_state 4 32 32 :: int state) = Inr (example_handle, example_store)"
proof -
  have bytes: "byte_count (init_state 4 32 32 :: int state) 3 = 12"
    by (simp add: byte_count_def init_state_def)
  have slots: "replicate 3 None = [None, None, None :: int option]"
    by (simp add: numeral_3_eq_3)
  show ?thesis
    by (simp add: SharedArray_int_def SharedHandle_of_object_def subscribe_def new_SAO_def
        SAO_ctor_def Memory_malloc_def bytes)
       (simp add: init_state_def example_handle_def example_store_def slots numeral_2_eq_2)
qed

lemma example_store_bound: "bound_to example_handle 3 example_store"
  by (simp add: bound_to_def is_store_def example_handle_def example_store_def)

lemma example_store_wf: "wf_state example_store"
  by (simp add: wf_state_def example_store_def)

text \<open>
  Five operations on the handle bound to three elements: the first four go through,
  the \<^verbatim>\<open>init\<close> fails, and the handle still references the object at address 2 at the end.
\<close>

theorem no_unbinding_witness:
  "object example_handle \<noteq> 0 \<and>
   length (run [ElementWrite 1 99, ElementRead 1, Length, CopyConstruct, Init 2]
             example_handle example_store) = 5 \<and>
   object (fst (last (run [ElementWrite 1 99, ElementRead 1, Length, CopyConstruct, Init 2]
                        example_handle example_store))) = 2 \<and>
   step (Init 2) example_handle example_store = Inl AssertionFailed"
proof -
  let ?ops = "[ElementWrite 1 99, ElementRead 1, Length, CopyConstruct, Init 2]"
  have bound: "object example_handle \<noteq> 0" by (simp add: example_handle_def)
  have len: "length (run ?ops example_handle example_store) = 5"
    by (simp add: assign_at_def read_at_def SharedArray_index_def SAO_index_def store_def
          put_def load_def SharedArray_size_def SAO_size_def SharedArray_copy_def
          SharedHandle_copy_def subscribe_def SharedArray_init_def
          example_handle_def example_store_def)
  then have "run ?ops example_handle example_store \<noteq> []" by auto
  then have final: "last (run ?ops example_handle example_store)
                      \<in> set (run ?ops example_handle example_store)"
    by (rule last_in_set)
  have two: "object example_handle = 2" by (simp add: example_handle_def)
  note law = no_unbinding [OF bound, of ?ops example_store]
  have visited: "object (fst (last (run ?ops example_handle example_store))) = 2"
    using law final two by metis
  have rejected: "step (Init 2) example_handle example_store = Inl AssertionFailed"
    using law by metis
  show ?thesis
    using bound len visited rejected by (intro conjI)
qed

subsection \<open>The two loops\<close>

text \<open>
  Run on a buffer with at least \<open>k\<close> slots, the destructor loop started at \<open>k\<close> visits the
  indices \<open>k-1\<close> down to 0 and succeeds; so does the loop of \<^verbatim>\<open>copy\<close>, which fills the
  first \<open>k\<close> slots of the target from the source and writes nowhere else.
\<close>

lemma destroy_at:
  assumes "mem s p = Some cells" and "k < length cells"
  shows "destroy (Ref p (int k)) s =
           Inr (s\<lparr>mem := (mem s)(p \<mapsto> cells[k := None]),
                  trace := trace s @ [Destruct p (int k)]\<rparr>)"
  using assms by (simp add: destroy_def put_def)

lemma dtor_loop_run:
  assumes "mem s p = Some cells" and "k \<le> length cells"
  shows "dtor_loop p (int k) s =
           Inr (s\<lparr>mem := (mem s)(p \<mapsto> replicate k None @ drop k cells),
                  trace := trace s @ map (\<lambda>j. Destruct p (int j)) (rev [0..<k])\<rparr>)"
  using assms
proof (induction k arbitrary: s cells)
  case 0
  then have "(mem s)(p \<mapsto> cells) = mem s" by (simp add: fun_upd_idem)
  then show ?case by (simp add: dtor_loop.simps)
next
  case (Suc k)
  let ?s1 = "s\<lparr>mem := (mem s)(p \<mapsto> cells[k := None]),
               trace := trace s @ [Destruct p (int k)]\<rparr>"
  have k: "k < length cells" using Suc.prems(2) by simp
  have first: "destroy (Ref p (int (Suc k) - 1)) s = Inr ?s1"
    using destroy_at [OF Suc.prems(1) k] by simp
  have rest: "dtor_loop p (int k) ?s1 =
           Inr (?s1\<lparr>mem := (mem ?s1)(p \<mapsto> replicate k None @ drop k (cells[k := None])),
                  trace := trace ?s1 @ map (\<lambda>j. Destruct p (int j)) (rev [0..<k])\<rparr>)"
    using k by (intro Suc.IH) simp_all
  have cells: "replicate k None @ drop k (cells[k := None])
                 = replicate (Suc k) None @ drop (Suc k) cells"
    using k by (simp add: replicate_append_same Cons_nth_drop_Suc [symmetric]
                  upd_conv_take_nth_drop)
  have "dtor_loop p (int (Suc k)) s = dtor_loop p (int k) ?s1"
    using first by (subst dtor_loop.simps) simp
  also note rest
  also have "?s1\<lparr>mem := (mem ?s1)(p \<mapsto> replicate k None @ drop k (cells[k := None])),
                  trace := trace ?s1 @ map (\<lambda>j. Destruct p (int j)) (rev [0..<k])\<rparr>
             = s\<lparr>mem := (mem s)(p \<mapsto> replicate (Suc k) None @ drop (Suc k) cells),
                  trace := trace s @ map (\<lambda>j. Destruct p (int j)) (rev [0..<Suc k])\<rparr>"
    by (simp add: cells)
  finally show ?case .
qed


lemma placement_copy_at:
  assumes "mem s src = Some xs" and "mem s dst = Some ys" and "k < length xs" and "k < length ys"
  shows "placement_copy (Ref dst (int k)) (Ref src (int k)) s =
           Inr (s\<lparr>mem := (mem s)(dst \<mapsto> ys[k := xs ! k]),
                  trace := trace s @ [Construct dst (int k)]\<rparr>)"
  using assms by (simp add: placement_copy_def load_def put_def)

lemma copy_loop_run:
  assumes "mem s src = Some xs" and "mem s dst = Some ys" and "src \<noteq> dst"
    and "k \<le> length xs" and "k \<le> length ys"
  shows "copy_loop src dst (int k) s =
           Inr (s\<lparr>mem := (mem s)(dst \<mapsto> take k xs @ drop k ys),
                  trace := trace s @ map (\<lambda>j. Construct dst (int j)) (rev [0..<k])\<rparr>)"
  using assms
proof (induction k arbitrary: s ys)
  case 0
  then have "(mem s)(dst \<mapsto> ys) = mem s" by (simp add: fun_upd_idem)
  then show ?case by (simp add: copy_loop.simps)
next
  case (Suc k)
  let ?s1 = "s\<lparr>mem := (mem s)(dst \<mapsto> ys[k := xs ! k]),
               trace := trace s @ [Construct dst (int k)]\<rparr>"
  have kx: "k < length xs" and ky: "k < length ys" using Suc.prems by simp_all
  have first: "placement_copy (Ref dst (int (Suc k) - 1)) (Ref src (int (Suc k) - 1)) s = Inr ?s1"
    using placement_copy_at [OF Suc.prems(1,2) kx ky] by simp
  have rest: "copy_loop src dst (int k) ?s1 =
           Inr (?s1\<lparr>mem := (mem ?s1)(dst \<mapsto> take k xs @ drop k (ys[k := xs ! k])),
                  trace := trace ?s1 @ map (\<lambda>j. Construct dst (int j)) (rev [0..<k])\<rparr>)"
    using Suc.prems kx ky by (intro Suc.IH) simp_all
  have cells: "take k xs @ drop k (ys[k := xs ! k]) = take (Suc k) xs @ drop (Suc k) ys"
    using kx ky by (simp add: take_Suc_conv_app_nth upd_conv_take_nth_drop)
  have "copy_loop src dst (int (Suc k)) s = copy_loop src dst (int k) ?s1"
    using first by (subst copy_loop.simps) simp
  also note rest
  also have "?s1\<lparr>mem := (mem ?s1)(dst \<mapsto> take k xs @ drop k (ys[k := xs ! k])),
                  trace := trace ?s1 @ map (\<lambda>j. Construct dst (int j)) (rev [0..<k])\<rparr>
             = s\<lparr>mem := (mem s)(dst \<mapsto> take (Suc k) xs @ drop (Suc k) ys),
                  trace := trace s @ map (\<lambda>j. Construct dst (int j)) (rev [0..<Suc k])\<rparr>"
    by (simp add: cells)
  finally show ?case .
qed

lemma placement_copy_frame:
  assumes "placement_copy (Ref dst j) src s = Inr s'"
  shows "objs s' = objs s \<and> next_addr s' = next_addr s \<and> avail s' = avail s \<and>
         (\<forall>p. p \<noteq> dst \<longrightarrow> mem s' p = mem s p) \<and> mem s dst \<noteq> None"
  using assms
  by (auto simp: placement_copy_def put_def split: sum.splits option.splits if_splits)

lemma copy_loop_frame:
  "copy_loop src dst i s = Inr s' \<Longrightarrow>
     objs s' = objs s \<and> next_addr s' = next_addr s \<and> avail s' = avail s \<and>
     (\<forall>p. p \<noteq> dst \<longrightarrow> mem s' p = mem s p) \<and> (mem s dst = None \<longrightarrow> s' = s)"
proof (induction src dst i s rule: copy_loop.induct)
  case (1 src dst i s)
  show ?case
  proof (cases "i = 0")
    case True
    then show ?thesis using "1.prems" by (simp add: copy_loop.simps)
  next
    case False
    then obtain s1 where first: "placement_copy (Ref dst (i - 1)) (Ref src (i - 1)) s = Inr s1"
      and rest: "copy_loop src dst (i - 1) s1 = Inr s'"
      using "1.prems" by (subst (asm) copy_loop.simps) (auto split: sum.splits)
    show ?thesis
      using "1.IH" [OF False first rest] placement_copy_frame [OF first] by auto
  qed
qed

subsection \<open>Teardown\<close>

text \<open>
  C7. Teardown contract: the destructor of a store with \<open>count > 0\<close> returns; what it
  adds to the trace is the destructor call of the element at each index from
  \<open>count - 1\<close> down to 0, each once and in that order, followed by the one call of
  \<^verbatim>\<open>Memory::free\<close> on the buffer, which is gone afterwards while no other buffer is
  touched. For \<open>count = 0\<close> the destructor leaves the state as it is.
\<close>

theorem teardown:
  assumes "objs s this = Some ob" and "is_store this count s"
  shows "(0 < count \<longrightarrow>
            (\<exists>s'. SAO_dtor this s = Inr s' \<and>
               trace s' = trace s @ map (\<lambda>j. Destruct (sao_a ob) (int j)) (rev [0..<nat count])
                                  @ [Free (sao_a ob)] \<and>
               mem s' (sao_a ob) = None \<and>
               (\<forall>p. p \<noteq> sao_a ob \<longrightarrow> mem s' p = mem s p))) \<and>
         (count = 0 \<longrightarrow> SAO_dtor this s = Inr s)"
proof (intro conjI impI)
  assume pos: "0 < count"
  then obtain cells where n: "sao_n ob = count" and buf: "mem s (sao_a ob) = Some cells"
    and len: "int (length cells) = count"
    using assms by (auto simp: is_store_def split: option.splits)
  let ?p = "sao_a ob"
  let ?s1 = "s\<lparr>mem := (mem s)(?p \<mapsto> replicate (length cells) None @ drop (length cells) cells),
               trace := trace s @ map (\<lambda>j. Destruct ?p (int j)) (rev [0..<length cells])\<rparr>"
  have k: "nat count = length cells" using len by simp
  have loop: "dtor_loop ?p (sao_n ob) s = Inr ?s1"
    using dtor_loop_run [OF buf, of "length cells"] n len by simp
  have free: "Memory_free ?p ?s1 =
                Inr (?s1\<lparr>mem := (mem ?s1)(?p := None),
                         avail := avail ?s1 + length cells * sizeof_T ?s1,
                         trace := trace ?s1 @ [Free ?p]\<rparr>)"
    by (simp add: Memory_free_def)
  have "SAO_dtor this s = Inr (?s1\<lparr>mem := (mem ?s1)(?p := None),
                         avail := avail ?s1 + length cells * sizeof_T ?s1,
                         trace := trace ?s1 @ [Free ?p]\<rparr>)"
    using assms(1) pos n loop free by (simp add: SAO_dtor_def)
  then show "\<exists>s'. SAO_dtor this s = Inr s' \<and>
               trace s' = trace s @ map (\<lambda>j. Destruct (sao_a ob) (int j)) (rev [0..<nat count])
                                  @ [Free (sao_a ob)] \<and>
               mem s' (sao_a ob) = None \<and>
               (\<forall>p. p \<noteq> sao_a ob \<longrightarrow> mem s' p = mem s p)"
    using k by simp
next
  assume "count = 0"
  then show "SAO_dtor this s = Inr s"
    using assms by (simp add: SAO_dtor_def is_store_def)
qed

lemma example_store_object:
  "objs example_store 2 = Some \<lparr>use_cnt = 1, sao_a = 1, sao_n = 3\<rparr>"
  by (simp add: example_store_def)

lemma example_store_is_store: "is_store 2 3 example_store"
  by (simp add: is_store_def example_store_def)

text \<open>The destructor of the three-element store of the example.\<close>

theorem teardown_witness:
  "objs example_store 2 = Some \<lparr>use_cnt = 1, sao_a = 1, sao_n = 3\<rparr> \<and>
   is_store 2 3 example_store \<and> (0::int) < 3 \<and>
   (\<exists>s'. SAO_dtor 2 example_store = Inr s' \<and>
      trace s' = [Malloc 1 12, Destruct 1 2, Destruct 1 1, Destruct 1 0, Free 1] \<and>
      mem s' 1 = None)"
proof -
  have tr: "trace example_store = [Malloc 1 12]" by (simp add: example_store_def)
  have idx: "map (\<lambda>j. Destruct 1 (int j)) (rev [0..<nat 3]) = [Destruct 1 2, Destruct 1 1, Destruct 1 0]"
    by (simp add: eval_nat_numeral)
  show ?thesis
    using teardown [OF example_store_object example_store_is_store]
      example_store_object example_store_is_store tr idx
    by auto
qed

subsection \<open>Deep copy\<close>

lemma wf_object_below:
  assumes "wf_state s" and "objs s p = Some ob"
  shows "sao_a ob < next_addr s \<and> p < next_addr s \<and> p \<noteq> 0"
proof -
  have "sao_a ob < next_addr s"
    using assms unfolding wf_state_def by blast
  moreover have "p < next_addr s"
  proof (rule ccontr)
    assume "\<not> p < next_addr s"
    then have "next_addr s \<le> p" by simp
    then have "objs s p = None" using assms(1) unfolding wf_state_def by blast
    then show False using assms(2) by simp
  qed
  moreover have "p \<noteq> 0"
  proof
    assume "p = 0"
    then have "objs s p = None" using assms(1) unfolding wf_state_def by simp
    then show False using assms(2) by simp
  qed
  ultimately show ?thesis by simp
qed

lemma wf_buffer_below:
  assumes "wf_state s" and "mem s p = Some cells"
  shows "p < next_addr s"
proof (rule ccontr)
  assume "\<not> p < next_addr s"
  then have "next_addr s \<le> p" by simp
  then have "mem s p = None" using assms(1) unfolding wf_state_def by blast
  then show False using assms(2) by simp
qed

lemma SAO_copy_zero:
  assumes "objs s this = Some ob" and "sao_n ob = 0"
  shows "SAO_copy this s =
           Inr (next_addr s,
                s\<lparr>objs := (objs s)(next_addr s \<mapsto> \<lparr>use_cnt = 0, sao_a = 0, sao_n = 0\<rparr>),
                  next_addr := Suc (next_addr s)\<rparr>)"
  using assms by (simp add: SAO_copy_def new_SAO_nonpositive copy_loop.simps)

lemma SAO_copy_positive:
  assumes wf: "wf_state s" and ad: "addressable s"
    and ob: "objs s this = Some ob" and pos: "0 < sao_n ob"
    and buf: "mem s (sao_a ob) = Some xs" and len: "int (length xs) = sao_n ob"
    and room: "sizeof_T s * length xs \<le> avail s"
  shows "SAO_copy this s =
           Inr (Suc (next_addr s),
                s\<lparr>mem := (mem s)(next_addr s \<mapsto> xs),
                  next_addr := Suc (Suc (next_addr s)),
                  avail := avail s - sizeof_T s * length xs,
                  trace := trace s @ Malloc (next_addr s) (sizeof_T s * length xs)
                             # map (\<lambda>j. Construct (next_addr s) (int j)) (rev [0..<length xs]),
                  objs := (objs s)(Suc (next_addr s) \<mapsto>
                            \<lparr>use_cnt = 0, sao_a = next_addr s, sao_n = sao_n ob\<rparr>)\<rparr>)"
proof -
  let ?d = "next_addr s"
  let ?b = "sizeof_T s * length xs"
  let ?s0 = "s\<lparr>mem := (mem s)(?d \<mapsto> replicate (length xs) None),
                  next_addr := Suc (Suc ?d),
                  avail := avail s - ?b,
                  trace := trace s @ [Malloc ?d ?b],
                  objs := (objs s)(Suc ?d \<mapsto> \<lparr>use_cnt = 0, sao_a = ?d, sao_n = sao_n ob\<rparr>)\<rparr>"
  have k: "nat (sao_n ob) = length xs" using len by simp
  have sz: "0 < sizeof_T s" using ad by (simp add: addressable_def)
  have "length xs * sizeof_T s < 2 ^ size_bits s"
    using ad buf unfolding addressable_def by blast
  then have nowrap: "sizeof_T s * nat (sao_n ob) < 2 ^ size_bits s"
    using k by (simp add: mult.commute)
  have bytes: "byte_count s (sao_n ob) = ?b"
    using byte_count_exact [OF nowrap] k by simp
  have slots: "byte_count s (sao_n ob) div sizeof_T s = length xs"
    using sz bytes by simp
  have new: "new_SAO (sao_n ob) s = Inr (Suc ?d, ?s0)"
    using new_SAO_positive [OF pos, of s] room bytes slots by simp
  have distinct: "sao_a ob \<noteq> ?d"
    using wf_object_below [OF wf ob] by simp
  have src: "mem ?s0 (sao_a ob) = Some xs"
    using buf distinct by simp
  have dst: "mem ?s0 ?d = Some (replicate (length xs) None)"
    by simp
  have loop: "copy_loop (sao_a ob) ?d (sao_n ob) ?s0 =
           Inr (?s0\<lparr>mem := (mem ?s0)(?d \<mapsto> take (length xs) xs @ drop (length xs) (replicate (length xs) None)),
                  trace := trace ?s0 @ map (\<lambda>j. Construct ?d (int j)) (rev [0..<length xs])\<rparr>)"
    using copy_loop_run [OF src dst distinct, of "length xs"] len by simp
  show ?thesis
    using ob new loop by (simp add: SAO_copy_def)
qed

lemma store_at:
  assumes "mem s p = Some cells" and "0 \<le> i" and "i < int (length cells)"
  shows "store (Ref p i) v s = Inr (s\<lparr>mem := (mem s)(p \<mapsto> cells[nat i := Some v])\<rparr>)"
  using assms by (simp add: store_def put_def)

text \<open>
  C2. Deep-copy independence: for a store of \<open>count \<ge> 0\<close> elements, \<^verbatim>\<open>copy()\<close> returns
  (given the bytes of \<open>count\<close> slots from the allocator) an object at an address that held none before;
  it is a store of the same length, and its elements are, index by index, those of the
  source. For \<open>count > 0\<close> its buffer is newly allocated; the elements are constructed
  at the indices \<open>count - 1\<close> down to 0, in that order. The slot of the copy at an index
  is another location than the slot of the source at that index, and a value written
  to the source afterwards is read back from the source while the elements of the copy
  stay as they were.
\<close>

theorem deep_copy_independent:
  assumes wf: "wf_state s" and ad: "addressable s" and st: "is_store this count s"
    and nonneg: "0 \<le> count" and room: "sizeof_T s * nat count \<le> avail s"
  shows "\<exists>c s1. SAO_copy this s = Inr (c, s1) \<and>
           objs s c = None \<and> is_store c count s1 \<and> SAO_size c s1 = Inr count \<and>
           length (elements c s1) = nat count \<and> elements c s1 = elements this s \<and>
           (\<exists>p. mem s p = None \<and>
                trace s1 = trace s @ (if 0 < count then [Malloc p (sizeof_T s * nat count)] else [])
                             @ map (\<lambda>j. Construct p (int j)) (rev [0..<nat count])) \<and>
           (\<forall>j v. 0 \<le> j \<and> j < count \<longrightarrow>
              (\<exists>r r' s2. SAO_index this j s1 = Inr r \<and> SAO_index c j s1 = Inr r' \<and> r' \<noteq> r \<and>
                 load r' s1 = load r s \<and>
                 store r v s1 = Inr s2 \<and> load r s2 = Inr (Some v) \<and>
                 load r' s2 = load r' s1 \<and> elements c s2 = elements c s1))"
proof (cases "0 < count")
  case False
  then have zero: "count = 0" using nonneg by simp
  obtain ob where ob: "objs s this = Some ob" and n: "sao_n ob = 0" and a: "sao_a ob = 0"
    using st zero by (auto simp: is_store_def split: option.splits)
  let ?c = "next_addr s"
  let ?s1 = "s\<lparr>objs := (objs s)(?c \<mapsto> \<lparr>use_cnt = 0, sao_a = 0, sao_n = 0\<rparr>),
               next_addr := Suc ?c\<rparr>"
  have null: "mem s 0 = None" and fresh: "objs s ?c = None"
    using wf by (simp_all add: wf_state_def)
  have cp: "SAO_copy this s = Inr (?c, ?s1)"
    by (rule SAO_copy_zero [OF ob n])
  have "is_store ?c count ?s1" "SAO_size ?c ?s1 = Inr count"
    "elements ?c ?s1 = []" "elements this s = []"
    using zero ob a null by (simp_all add: is_store_def SAO_size_def elements_def)
  moreover have "trace ?s1 = trace s @ (if 0 < count then [Malloc 0 (sizeof_T s * nat count)] else [])
                             @ map (\<lambda>j. Construct 0 (int j)) (rev [0..<nat count])"
    using zero by simp
  ultimately show ?thesis
    using cp fresh null zero by (intro exI [of _ ?c] exI [of _ ?s1]) auto
next
  case True
  obtain ob xs where ob: "objs s this = Some ob" and n: "sao_n ob = count"
    and buf: "mem s (sao_a ob) = Some xs" and len: "int (length xs) = count"
    using st True by (auto simp: is_store_def split: option.splits)
  let ?d = "next_addr s"
  let ?c = "Suc ?d"
  define s1 where "s1 = s\<lparr>mem := (mem s)(?d \<mapsto> xs),
               next_addr := Suc (Suc ?d),
               avail := avail s - sizeof_T s * length xs,
               trace := trace s @ Malloc ?d (sizeof_T s * length xs)
                          # map (\<lambda>j. Construct ?d (int j)) (rev [0..<length xs]),
               objs := (objs s)(?c \<mapsto> \<lparr>use_cnt = 0, sao_a = ?d, sao_n = sao_n ob\<rparr>)\<rparr>"
  have k: "nat count = length xs" using len by simp
  have cp: "SAO_copy this s = Inr (?c, s1)"
    unfolding s1_def using SAO_copy_positive [OF wf ad ob _ buf] True n len room k by simp
  have below: "sao_a ob < ?d" "this < ?d"
    using wf_object_below [OF wf ob] by simp_all
  have fresh: "objs s ?c = None" "mem s ?d = None"
    using wf by (simp_all add: wf_state_def)
  have this1: "objs s1 this = Some ob"
    and c1: "objs s1 ?c = Some \<lparr>use_cnt = 0, sao_a = ?d, sao_n = count\<rparr>"
    using ob below n by (simp_all add: s1_def)
  have src1: "mem s1 (sao_a ob) = Some xs" and dst1: "mem s1 ?d = Some xs"
    using buf below by (simp_all add: s1_def)
  have store_c: "is_store ?c count s1" and size_c: "SAO_size ?c s1 = Inr count"
    using c1 dst1 len True by (simp_all add: is_store_def SAO_size_def)
  have el: "elements ?c s1 = xs" "elements this s = xs"
    using c1 dst1 ob buf by (simp_all add: elements_def)
  have tr: "trace s1 = trace s @ (if 0 < count then [Malloc ?d (sizeof_T s * nat count)] else [])
                             @ map (\<lambda>j. Construct ?d (int j)) (rev [0..<nat count])"
    using True k by (simp add: s1_def)
  have mut: "\<exists>r r' s2. SAO_index this j s1 = Inr r \<and> SAO_index ?c j s1 = Inr r' \<and> r' \<noteq> r \<and>
                 load r' s1 = load r s \<and>
                 store r v s1 = Inr s2 \<and> load r s2 = Inr (Some v) \<and>
                 load r' s2 = load r' s1 \<and> elements ?c s2 = elements ?c s1"
    if j: "0 \<le> j \<and> j < count" for j v
  proof -
    let ?r = "Ref (sao_a ob) j"
    let ?r' = "Ref ?d j"
    define s2 where "s2 = s1\<lparr>mem := (mem s1)(sao_a ob \<mapsto> xs[nat j := Some v])\<rparr>"
    have jx: "j < int (length xs)" using j len by simp
    have i1: "SAO_index this j s1 = Inr ?r"
      using this1 j n by (simp add: SAO_index_def)
    have i2: "SAO_index ?c j s1 = Inr ?r'"
      using c1 j by (simp add: SAO_index_def)
    have diff: "?r' \<noteq> ?r" using below by simp
    have same: "load ?r' s1 = load ?r s"
      using dst1 buf by (simp add: load_def)
    have st: "store ?r v s1 = Inr s2"
      unfolding s2_def using store_at [OF src1 _ jx] j by simp
    have "nat j < length xs" using j jx by (simp add: nat_less_iff)
    then have reread: "load ?r s2 = Inr (Some v)"
      using j jx by (simp add: load_def s2_def)
    have c2: "objs s2 ?c = Some \<lparr>use_cnt = 0, sao_a = ?d, sao_n = count\<rparr>"
      and dst2: "mem s2 ?d = Some xs"
      using c1 dst1 below by (simp_all add: s2_def)
    have kept: "load ?r' s2 = load ?r' s1"
      using dst1 dst2 by (simp add: load_def)
    have el2: "elements ?c s2 = elements ?c s1"
      using c2 dst2 el(1) by (simp add: elements_def)
    show ?thesis
      using i1 i2 diff same st reread kept el2 by blast
  qed
  have ev: "\<exists>p. mem s p = None \<and>
                trace s1 = trace s @ (if 0 < count then [Malloc p (sizeof_T s * nat count)] else [])
                             @ map (\<lambda>j. Construct p (int j)) (rev [0..<nat count])"
    using fresh(2) tr by blast
  have "length (elements ?c s1) = nat count" "elements ?c s1 = elements this s"
    using el k by simp_all
  then show ?thesis
    using cp fresh(1) store_c size_c ev mut by blast
qed


text \<open>The filled store of the example is reached by three assignments; it is well formed.\<close>

lemma filled_store_reached:
  "\<exists>s1 s2. assign_at example_handle 0 10 example_store = Inr s1 \<and>
     assign_at example_handle 1 20 s1 = Inr s2 \<and>
     assign_at example_handle 2 30 s2 = Inr filled_store"
  by (simp add: assign_at_def SharedArray_index_def SAO_index_def store_def put_def
        example_handle_def example_store_def filled_store_def)

lemma filled_store_wf: "wf_state filled_store"
  by (simp add: wf_state_def filled_store_def example_store_def)

lemma filled_store_addressable: "addressable filled_store"
  by (simp add: addressable_def filled_store_def example_store_def)

lemma filled_store_is_store: "is_store 2 3 filled_store"
  by (simp add: is_store_def filled_store_def example_store_def)

lemma filled_store_elements: "elements 2 filled_store = [Some 10, Some 20, Some 30]"
  by (simp add: elements_def filled_store_def example_store_def)

text \<open>
  The copy of the filled store holds 10, 20, 30, and still does after 7 is written to
  the source at index 1.
\<close>

theorem deep_copy_independent_witness:
  "wf_state filled_store \<and> addressable filled_store \<and> is_store 2 3 filled_store \<and>
   (0::int) \<le> 3 \<and>
   sizeof_T filled_store * nat 3 \<le> avail filled_store \<and>
   (\<exists>c s1. SAO_copy 2 filled_store = Inr (c, s1) \<and> SAO_size c s1 = Inr 3 \<and>
      elements c s1 = [Some 10, Some 20, Some 30] \<and>
      (\<exists>r s2. SAO_index 2 1 s1 = Inr r \<and> store r 7 s1 = Inr s2 \<and>
         load r s2 = Inr (Some 7) \<and> elements c s2 = [Some 10, Some 20, Some 30]))"
proof -
  have room: "sizeof_T filled_store * nat 3 \<le> avail filled_store"
    by (simp add: filled_store_def example_store_def)
  obtain c s1 where cp: "SAO_copy 2 filled_store = Inr (c, s1)"
    and size: "SAO_size c s1 = Inr 3"
    and el: "elements c s1 = elements 2 filled_store"
    and mut: "\<forall>j v. 0 \<le> j \<and> j < 3 \<longrightarrow>
              (\<exists>r r' s2. SAO_index 2 j s1 = Inr r \<and> SAO_index c j s1 = Inr r' \<and> r' \<noteq> r \<and>
                 load r' s1 = load r filled_store \<and>
                 store r v s1 = Inr s2 \<and> load r s2 = Inr (Some v) \<and>
                 load r' s2 = load r' s1 \<and> elements c s2 = elements c s1)"
    using deep_copy_independent [OF filled_store_wf filled_store_addressable
        filled_store_is_store _ room]
    by auto
  have "\<exists>r s2. SAO_index 2 1 s1 = Inr r \<and> store r 7 s1 = Inr s2 \<and>
         load r s2 = Inr (Some 7) \<and> elements c s2 = elements c s1"
    using mut [rule_format, of 1 7] by auto
  then show ?thesis
    using filled_store_wf filled_store_addressable filled_store_is_store room cp size el
      filled_store_elements
    by auto
qed

lemma new_SAO_frame:
  assumes "new_SAO n0 s = Inr (c, s0)"
  shows "next_addr s \<le> c \<and>
         (\<forall>p. p < next_addr s \<longrightarrow> objs s0 p = objs s p \<and> mem s0 p = mem s p) \<and>
         (\<forall>ob'. objs s0 c = Some ob' \<longrightarrow> sao_a ob' = (if 0 < n0 then next_addr s else 0))"
  using assms
  by (auto simp: new_SAO_def SAO_ctor_def Memory_malloc_def split: if_splits sum.splits)

text \<open>
  On a store constructed with a negative count the loop of \<^verbatim>\<open>copy\<close> starts below 0 and
  its first step indexes the \<^verbatim>\<open>NULL\<close> buffer at a negative position.
\<close>

lemma SAO_copy_negative:
  assumes "objs s this = Some ob" and "sao_n ob < 0"
  shows "SAO_copy this s = Inl InvalidPointer"
proof -
  let ?s0 = "s\<lparr>objs := (objs s)(next_addr s \<mapsto> \<lparr>use_cnt = 0, sao_a = 0, sao_n = sao_n ob\<rparr>),
               next_addr := Suc (next_addr s)\<rparr>"
  have new: "new_SAO (sao_n ob) s = Inr (next_addr s, ?s0)"
    using assms(2) by (simp add: new_SAO_nonpositive)
  have "load (Ref (sao_a ob) (sao_n ob - 1)) ?s0 = Inl InvalidPointer"
    using assms(2) by (simp add: load_def split: option.splits)
  then have "copy_loop (sao_a ob) 0 (sao_n ob) ?s0 = Inl InvalidPointer"
    using assms(2) by (subst copy_loop.simps) (simp add: placement_copy_def)
  then show ?thesis
    using assms(1) new by (simp add: SAO_copy_def)
qed

text \<open>
  C10. Frame of \<^verbatim>\<open>copy()\<close>: when \<^verbatim>\<open>copy()\<close> returns, the length and the elements of the
  source are what they were before the call; so is every object and every buffer that
  existed before. The object returned is at an address handed out during the call.
\<close>

theorem copy_frame:
  assumes wf: "wf_state s" and cp: "SAO_copy this s = Inr (c, s1)"
  shows "SAO_size this s1 = SAO_size this s \<and> elements this s1 = elements this s \<and>
         (\<forall>p. p < next_addr s \<longrightarrow> objs s1 p = objs s p \<and> mem s1 p = mem s p) \<and>
         next_addr s \<le> c \<and> objs s c = None"
proof -
  obtain ob s0 ob' where ob: "objs s this = Some ob"
    and new: "new_SAO (sao_n ob) s = Inr (c, s0)"
    and ob': "objs s0 c = Some ob'"
    and loop: "copy_loop (sao_a ob) (sao_a ob') (sao_n ob) s0 = Inr s1"
    using cp by (auto simp: SAO_copy_def split: option.splits sum.splits)
  note nf = new_SAO_frame [OF new]
  note lf = copy_loop_frame [OF loop]
  have dst: "sao_a ob' = (if 0 < sao_n ob then next_addr s else 0)"
    using nf ob' by blast
  have old: "objs s1 p = objs s p \<and> mem s1 p = mem s p" if p: "p < next_addr s" for p
  proof (cases "0 < sao_n ob")
    case True
    then have "p \<noteq> sao_a ob'" using dst p by simp
    then show ?thesis using lf nf p by simp
  next
    case False
    have "mem s 0 = None" "0 < next_addr s" using wf by (simp_all add: wf_state_def)
    then have "mem s0 (sao_a ob') = None" using False dst nf by simp
    then have "s1 = s0" using lf by blast
    then show ?thesis using nf p by simp
  qed
  have below: "sao_a ob < next_addr s" "this < next_addr s"
    using wf_object_below [OF wf ob] by simp_all
  have fresh: "objs s c = None"
    using wf nf by (simp add: wf_state_def)
  have "objs s1 this = objs s this" "mem s1 (sao_a ob) = mem s (sao_a ob)"
    using old below by simp_all
  then have "SAO_size this s1 = SAO_size this s" "elements this s1 = elements this s"
    using ob by (simp_all add: SAO_size_def elements_def)
  then show ?thesis
    using old nf fresh by blast
qed

text \<open>The copy of the filled store leaves the source object and its buffer as they were.\<close>

theorem copy_frame_witness:
  "wf_state filled_store \<and>
   (\<exists>c s1. SAO_copy 2 filled_store = Inr (c, s1) \<and> SAO_size 2 s1 = Inr 3 \<and>
      elements 2 s1 = [Some 10, Some 20, Some 30] \<and> objs s1 2 = objs filled_store 2 \<and>
      mem s1 1 = mem filled_store 1 \<and> 3 \<le> c)"
proof -
  have room: "sizeof_T filled_store * nat 3 \<le> avail filled_store"
    by (simp add: filled_store_def example_store_def)
  have ob: "objs filled_store 2 = Some \<lparr>use_cnt = 1, sao_a = 1, sao_n = 3\<rparr>"
    and buf: "mem filled_store 1 = Some [Some 10, Some 20, Some 30]"
    and nx: "next_addr filled_store = 3"
    by (simp_all add: filled_store_def example_store_def)
  obtain c s1 where cp: "SAO_copy 2 filled_store = Inr (c, s1)"
    using SAO_copy_positive [OF filled_store_wf filled_store_addressable ob,
        of "[Some 10, Some 20, Some 30]"] buf room
    by simp
  have size: "SAO_size 2 filled_store = Inr 3"
    using ob by (simp add: SAO_size_def)
  show ?thesis
    using copy_frame [OF filled_store_wf cp] cp size filled_store_elements nx filled_store_wf
    by auto
qed

end
